theory Spec2Isabelle
  imports Main "HOL-Library.Sublist"
begin

section \<open>Python string primitives\<close>

text \<open>
  Strings are \<^typ>\<open>string\<close>, read as ASCII text: one \<^typ>\<open>char\<close> per character.
  The functions below are the \<open>str\<close> methods that \<open>aider/io.py\<close> calls, restricted to
  ASCII: a character above 127 is neither whitespace nor a cased letter here.
\<close>

abbreviation LF :: char where "LF \<equiv> CHR 0x0A"
abbreviation CR :: char where "CR \<equiv> CHR 0x0D"

text \<open>\<open>c.isspace()\<close> for one character: tab, LF, VT, FF, CR, the four separators
  FS, GS, RS, US and the blank.\<close>

definition isspace :: "char \<Rightarrow> bool" where
  "isspace c = (c \<in> set [CHR 0x09, CHR 0x0A, CHR 0x0B, CHR 0x0C, CHR 0x0D,
                          CHR 0x1C, CHR 0x1D, CHR 0x1E, CHR 0x1F, CHR 0x20])"

definition str_lstrip :: "string \<Rightarrow> string" where
  "str_lstrip s = dropWhile isspace s"

definition str_rstrip :: "string \<Rightarrow> string" where
  "str_rstrip s = rev (dropWhile isspace (rev s))"

definition str_strip :: "string \<Rightarrow> string" where
  "str_strip s = str_rstrip (str_lstrip s)"

text \<open>\<open>s.split()\<close>: the maximal runs of non-whitespace characters, in order.\<close>

fun split_acc :: "string \<Rightarrow> string \<Rightarrow> string list" where
  "split_acc cur [] = (if cur = [] then [] else [cur])"
| "split_acc cur (c # cs) =
     (if isspace c then (if cur = [] then split_acc [] cs else cur # split_acc [] cs)
      else split_acc (cur @ [c]) cs)"

definition str_split :: "string \<Rightarrow> string list" where
  "str_split s = split_acc [] s"

text \<open>\<open>c.lower()\<close> on ASCII: the 26 capital letters are mapped, every other
  character is kept.\<close>

definition lower_char :: "char \<Rightarrow> char" where
  "lower_char c =
     (case map_of (zip ''ABCDEFGHIJKLMNOPQRSTUVWXYZ'' ''abcdefghijklmnopqrstuvwxyz'') c of
        Some d \<Rightarrow> d
      | None \<Rightarrow> c)"

definition str_lower :: "string \<Rightarrow> string" where
  "str_lower s = map lower_char s"

definition str_startswith :: "string \<Rightarrow> string \<Rightarrow> bool" where
  "str_startswith s p = (take (length p) s = p)"

definition str_endswith :: "string \<Rightarrow> string \<Rightarrow> bool" where
  "str_endswith s p = (length p \<le> length s \<and> drop (length s - length p) s = p)"

text \<open>\<open>sep.join(xs)\<close>.\<close>

fun str_join :: "string \<Rightarrow> string list \<Rightarrow> string" where
  "str_join sep [] = []"
| "str_join sep [x] = x"
| "str_join sep (x # y # ys) = x @ sep @ str_join sep (y # ys)"

text \<open>\<open>s.splitlines()\<close> on ASCII: a line ends at LF, CR, CR LF, VT, FF, FS, GS or RS;
  the line ends are dropped and no empty last line is produced.\<close>

definition is_linebreak :: "char \<Rightarrow> bool" where
  "is_linebreak c = (c \<in> set [CHR 0x0A, CHR 0x0B, CHR 0x0C, CHR 0x0D, CHR 0x1C, CHR 0x1D, CHR 0x1E])"

fun splitlines_acc :: "string \<Rightarrow> string \<Rightarrow> string list" where
  "splitlines_acc cur [] = (if cur = [] then [] else [cur])"
| "splitlines_acc cur [c] = (if is_linebreak c then [cur] else [cur @ [c]])"
| "splitlines_acc cur (c # d # cs) =
     (if c = CR \<and> d = LF then cur # splitlines_acc [] cs
      else if is_linebreak c then cur # splitlines_acc [] (d # cs)
      else splitlines_acc (cur @ [c]) (d # cs))"

definition str_splitlines :: "string \<Rightarrow> string list" where
  "str_splitlines s = splitlines_acc [] s"


section \<open>The transcript: class \<open>InputOutput\<close>\<close>

text \<open>
  What the terminal is sent is kept as a list of events, in order. The chat history file
  is the text \<open>chat_history\<close>: the content of the file that \<open>chat_history_file\<close> names,
  which every write extends at its end (the file is opened in append mode).
\<close>

datatype out_event =
    ConsoleRule
  | PrintBlank
  | ConsolePrint "string list" "string option"
  | PromptShown string

record InputOutput =
  pretty :: bool
  yes :: bool
  input_history_file :: "string option"
  chat_history_file :: "string option"
  tool_color :: string
  tool_error_color :: string
  chat_history :: string
  console :: "out_event list"

definition append_chat_history :: "InputOutput \<Rightarrow> string \<Rightarrow> bool \<Rightarrow> bool \<Rightarrow> InputOutput" where
  "append_chat_history self txt linebreak blockquote =
     (let t1 = (if blockquote then ''> '' @ str_strip txt else txt);
          t2 = (if linebreak then str_rstrip t1 @ ''  '' @ [LF] else t1);
          t3 = (if \<not> str_endswith t2 [LF] then t2 @ [LF] else t2)
      in case chat_history_file self of
           None \<Rightarrow> self
         | Some path \<Rightarrow> self\<lparr>chat_history := chat_history self @ t3\<rparr>)"

text \<open>The constructor; \<open>current_time\<close> is the formatted local time it reads from the clock.\<close>

definition InputOutput_init ::
  "bool \<Rightarrow> bool \<Rightarrow> string option \<Rightarrow> string option \<Rightarrow> string \<Rightarrow> string \<Rightarrow> string \<Rightarrow> string
     \<Rightarrow> InputOutput" where
  "InputOutput_init pretty0 yes0 input_history_file0 chat_history_file0 tool_color0
       tool_error_color0 old_content current_time =
     append_chat_history
       \<lparr>pretty = pretty0, yes = yes0, input_history_file = input_history_file0,
        chat_history_file = chat_history_file0, tool_color = tool_color0,
        tool_error_color = tool_error_color0, chat_history = old_content, console = []\<rparr>
       ([LF] @ ''# aider chat started at '' @ current_time @ [LF, LF]) False False"

definition ai_output :: "InputOutput \<Rightarrow> string \<Rightarrow> InputOutput" where
  "ai_output self content =
     append_chat_history self ([LF] @ str_strip content @ [LF, LF]) False False"

text \<open>\<open>confirm_ask\<close> and \<open>prompt_ask\<close>: \<open>answer\<close> is what the user types at the prompt,
  read only when \<open>yes\<close> is off. The default value offered at the prompt is part of the
  terminal dialogue and does not reach the result.\<close>

definition confirm_ask :: "InputOutput \<Rightarrow> string \<Rightarrow> string \<Rightarrow> bool option \<times> InputOutput" where
  "confirm_ask self question answer =
     (let res = (if yes self then ''yes'' else answer);
          hist = str_strip question @ '' '' @ str_strip res;
          self' = append_chat_history self hist True True
      in if res = [] \<or> str_strip res = [] then (None, self')
         else (Some (str_startswith (str_lower (str_strip res)) ''y''), self'))"

definition prompt_ask :: "InputOutput \<Rightarrow> string \<Rightarrow> string \<Rightarrow> string \<times> InputOutput" where
  "prompt_ask self question answer =
     (let res = (if yes self then ''yes'' else answer);
          hist = str_strip question @ '' '' @ str_strip res;
          self' = append_chat_history self hist True True
      in (res, self'))"

definition tool_error :: "InputOutput \<Rightarrow> string \<Rightarrow> InputOutput" where
  "tool_error self message =
     (let self1 = (if str_strip message \<noteq> []
                   then append_chat_history self (str_strip message) True True
                   else self)
      in self1\<lparr>console := console self1 @ [ConsolePrint [message] (Some (tool_error_color self1))]\<rparr>)"

definition tool :: "InputOutput \<Rightarrow> string list \<Rightarrow> bool \<Rightarrow> InputOutput" where
  "tool self messages log_only =
     (let self1 = (if messages \<noteq> []
                   then append_chat_history self (str_strip (str_join '' '' messages)) True True
                   else self)
      in if \<not> log_only then self1\<lparr>console := console self1 @ [ConsolePrint messages None]\<rparr>
         else self1)"


section \<open>Paths, files and lexers\<close>

text \<open>\<open>os.path.basename\<close> and \<open>os.path.join\<close> on a POSIX system: the basename is what
  follows the last slash.\<close>

definition basename :: "string \<Rightarrow> string" where
  "basename p = rev (takeWhile (\<lambda>c. c \<noteq> CHR ''/'') (rev p))"

definition path_join :: "string \<Rightarrow> string \<Rightarrow> string" where
  "path_join a b =
     (if str_startswith b ''/'' then b
      else if a = [] \<or> str_endswith a ''/'' then a @ b
      else a @ ''/'' @ b)"

datatype error = OSError | UnicodeDecodeError | EOFError

text \<open>
  A Pygments token type is a tuple of names (\<open>Token.Name.Function\<close> is
  \<open>[''Name'', ''Function'']\<close>), and \<open>t in Token.Name\<close> holds when the tuple starts
  with \<open>Name\<close>. A lexer maps a text to its tokens, each a type and the token's text.
\<close>

type_synonym ttype = "string list"
type_synonym lexer = "string \<Rightarrow> (ttype \<times> string) list"

definition in_Token_Name :: "ttype \<Rightarrow> bool" where
  "in_Token_Name t = (take 1 t = [''Name''])"

text \<open>
  The world outside the completer: \<open>read_file\<close> is \<open>open(fname).read()\<close>, which returns the
  content or raises; \<open>guess_lexer_for_filename\<close> returns a lexer, or \<open>None\<close> where Pygments
  raises \<open>ClassNotFound\<close>.
\<close>

record environment =
  read_file :: "string \<Rightarrow> error + string"
  guess_lexer_for_filename :: "string \<Rightarrow> string \<Rightarrow> lexer option"


section \<open>Python containers\<close>

text \<open>
  A \<open>set\<close> of strings is a list without repetitions; the list order stands for the order
  in which Python happens to iterate over the set, on which no statement below depends.
  \<open>set_add\<close> is \<open>s.add(x)\<close> and \<open>set_update\<close> is \<open>s.update(xs)\<close>.
\<close>

definition set_add :: "'a list \<Rightarrow> 'a \<Rightarrow> 'a list" where
  "set_add s x = (if x \<in> set s then s else s @ [x])"

definition set_update :: "'a list \<Rightarrow> 'a list \<Rightarrow> 'a list" where
  "set_update s xs = foldl set_add s xs"

text \<open>
  A \<open>defaultdict(list)\<close> is an association list in insertion order with one pair per key.
  \<open>dict_append d k v\<close> is \<open>d[k].append(v)\<close>, which creates the entry when the key is new;
  \<open>dict_get d k\<close> is \<open>d.get(k, [])\<close>, which creates nothing; \<open>dict_keys d\<close> is \<open>set(d)\<close>.
\<close>

type_synonym alias_map = "(string \<times> string list) list"

fun dict_append :: "alias_map \<Rightarrow> string \<Rightarrow> string \<Rightarrow> alias_map" where
  "dict_append [] k v = [(k, [v])]"
| "dict_append ((k', vs) # d) k v =
     (if k' = k then (k', vs @ [v]) # d else (k', vs) # dict_append d k v)"

definition dict_get :: "alias_map \<Rightarrow> string \<Rightarrow> string list" where
  "dict_get d k = (case map_of d k of None \<Rightarrow> [] | Some vs \<Rightarrow> vs)"

definition dict_keys :: "alias_map \<Rightarrow> string list" where
  "dict_keys d = map fst d"


section \<open>The completer: class \<open>FileContentCompleter\<close>\<close>

datatype Completion = Completion (completion_text: string) (start_position: int)

text \<open>The command registry is code outside this file; the completer only calls its two
  methods.\<close>

record Commands =
  get_commands :: "string list"
  get_command_completions :: "string \<Rightarrow> string \<Rightarrow> Completion list"

record FileContentCompleter =
  commands :: Commands
  addable_rel_fnames :: "string list"
  rel_fnames :: "string list"
  fname_to_rel_fnames :: alias_map
  words :: "string list"

subsection \<open>Construction\<close>

text \<open>The first loop of \<open>__init__\<close>: the alias map.\<close>

definition alias_step :: "alias_map \<Rightarrow> string \<Rightarrow> alias_map" where
  "alias_step d rel_fname =
     (let fname = basename rel_fname
      in if fname \<noteq> rel_fname then dict_append d fname rel_fname else d)"

definition build_aliases :: "string list \<Rightarrow> alias_map" where
  "build_aliases addable = foldl alias_step [] addable"

text \<open>The third loop: every file in the chat is a candidate and is read; its name tokens
  are added when a lexer is found. A failed read ends the construction.\<close>

fun index_files :: "environment \<Rightarrow> string \<Rightarrow> string list \<Rightarrow> string list \<Rightarrow> error + string list" where
  "index_files env root [] ws = Inr ws"
| "index_files env root (rel_fname # rest) ws =
     (let ws1 = set_add ws rel_fname;
          fname = path_join root rel_fname
      in case read_file env fname of
           Inl e \<Rightarrow> Inl e
         | Inr content \<Rightarrow>
             (case guess_lexer_for_filename env fname content of
                None \<Rightarrow> index_files env root rest ws1
              | Some lexer \<Rightarrow>
                  index_files env root rest
                    (set_update ws1
                       (map snd (filter (\<lambda>token. in_Token_Name (fst token)) (lexer content))))))"

definition FileContentCompleter_init ::
  "environment \<Rightarrow> string \<Rightarrow> string list \<Rightarrow> string list \<Rightarrow> Commands
     \<Rightarrow> error + FileContentCompleter" where
  "FileContentCompleter_init env root rels addable cmds =
     (case index_files env root rels (set_update [] addable) of
        Inl e \<Rightarrow> Inl e
      | Inr ws \<Rightarrow>
          Inr \<lparr>commands = cmds, addable_rel_fnames = addable, rel_fnames = rels,
               fname_to_rel_fnames = build_aliases addable, words = ws\<rparr>)"

subsection \<open>Completion\<close>

text \<open>The final loop of \<open>get_completions\<close>: what the candidates yield, in the order in
  which they are visited.\<close>

fun yield_matches :: "alias_map \<Rightarrow> string \<Rightarrow> string list \<Rightarrow> Completion list" where
  "yield_matches d last_word [] = []"
| "yield_matches d last_word (word # rest) =
     (if str_startswith (str_lower word) (str_lower last_word)
      then (let rels = dict_get d word
            in if rels \<noteq> []
               then map (\<lambda>rel_fname. Completion rel_fname (- int (length last_word))) rels
               else [Completion word (- int (length last_word))])
      else [])
     @ yield_matches d last_word rest"

text \<open>\<open>get_completions\<close> run to its end: the completions in the order yielded, and the
  completer afterwards. In the branch for ordinary text \<open>candidates\<close> is the very set
  \<open>self.words\<close>, so \<open>candidates.update\<close> writes into the completer.\<close>

definition get_completions ::
  "FileContentCompleter \<Rightarrow> string \<Rightarrow> Completion list \<times> FileContentCompleter" where
  "get_completions self txt =
     (let ws = str_split txt
      in if ws = [] then ([], self)
         else if hd txt = CHR ''/'' then
           (if length ws = 1 \<and> \<not> isspace (last txt)
            then (yield_matches (fname_to_rel_fnames self) (last ws)
                    (get_commands (commands self)), self)
            else (get_command_completions (commands self) (tl (hd ws)) (last ws), self))
         else
           (let self' = self\<lparr>words := set_update (words self) (dict_keys (fname_to_rel_fnames self))\<rparr>
            in (yield_matches (fname_to_rel_fnames self') (last ws) (words self'), self')))"


section \<open>Reading the input: \<open>InputOutput.get_input\<close>\<close>

text \<open>
  The loop of \<open>get_input\<close>. \<open>raw\<close> holds the lines the user will enter, one per prompt; a
  prompt with no line left raises \<open>EOFError\<close>. Each round builds a completer first, which
  reads the files in the chat. The result is the input, the prompts shown and the lines
  not yet read.
\<close>

fun read_loop ::
  "environment \<Rightarrow> string \<Rightarrow> string list \<Rightarrow> string list \<Rightarrow> Commands \<Rightarrow> string \<Rightarrow> bool \<Rightarrow> string
     \<Rightarrow> out_event list \<Rightarrow> string list \<Rightarrow> error + (string \<times> out_event list \<times> string list)" where
  "read_loop env root rels addable cmds show multiline_input inp shown [] =
     (case FileContentCompleter_init env root rels addable cmds of
        Inl e \<Rightarrow> Inl e
      | Inr completer_instance \<Rightarrow> Inl EOFError)"
| "read_loop env root rels addable cmds show multiline_input inp shown (line # raw) =
     (case FileContentCompleter_init env root rels addable cmds of
        Inl e \<Rightarrow> Inl e
      | Inr completer_instance \<Rightarrow>
          (let show' = (if multiline_input then ''. '' else show);
               shown' = shown @ [PromptShown show']
           in if str_strip line = ''{'' \<and> \<not> multiline_input
              then read_loop env root rels addable cmds show' True inp shown' raw
              else if str_strip line = ''}'' \<and> multiline_input
              then Inr (inp, shown', raw)
              else if multiline_input
              then read_loop env root rels addable cmds show' multiline_input
                     (inp @ line @ [LF]) shown' raw
              else Inr (line, shown', raw)))"

definition get_input ::
  "InputOutput \<Rightarrow> environment \<Rightarrow> string \<Rightarrow> string list \<Rightarrow> string list \<Rightarrow> Commands \<Rightarrow> string list
     \<Rightarrow> error + (string \<times> InputOutput \<times> string list)" where
  "get_input self env root rels addable cmds raw =
     (let self1 = self\<lparr>console := console self @ [if pretty self then ConsoleRule else PrintBlank]\<rparr>;
          show0 = str_join '' '' rels;
          show1 = (if length show0 > 10 then show0 @ [LF] else show0);
          show2 = show1 @ ''> ''
      in case read_loop env root rels addable cmds show2 False [] [] raw of
           Inl e \<Rightarrow> Inl e
         | Inr (inp, shown, rest) \<Rightarrow>
             (let self2 = self1\<lparr>console := console self1 @ shown @ [PrintBlank]\<rparr>;
                  marker = ''####'';
                  hist0 = (if inp \<noteq> [] then str_splitlines inp else [''<blank>'']);
                  hist1 = str_join (''  '' @ [LF] @ marker @ '' '') hist0;
                  hist2 = [LF] @ marker @ '' '' @ hist1
              in Inr (inp, append_chat_history self2 hist2 True False, rest)))"


section \<open>The specification's wording\<close>

text \<open>The three formatting steps of the transcript writer, each as the specification
  words it.\<close>

definition spec_blockquote :: "bool \<Rightarrow> string \<Rightarrow> string" where
  "spec_blockquote blockquote t = (if blockquote then ''> '' @ str_strip t else t)"

definition spec_linebreak :: "bool \<Rightarrow> string \<Rightarrow> string" where
  "spec_linebreak linebreak t = (if linebreak then str_rstrip t @ ''  '' @ [LF] else t)"

definition spec_final_newline :: "string \<Rightarrow> string" where
  "spec_final_newline t = (if t \<noteq> [] \<and> last t = LF then t else t @ [LF])"

text \<open>
  The same steps stated by what they achieve. \<open>is_trimmed s t\<close>: \<open>t\<close> is \<open>s\<close> without the
  whitespace at its two ends. \<open>is_rtrimmed s r\<close>: \<open>r\<close> is \<open>s\<close> without the whitespace at its
  end. \<open>spec_formatted\<close> relates a text and the two flags to the text the three steps
  produce from it.
\<close>

definition is_trimmed :: "string \<Rightarrow> string \<Rightarrow> bool" where
  "is_trimmed s t \<longleftrightarrow>
     (\<exists>a b. s = a @ t @ b \<and> list_all isspace a \<and> list_all isspace b)
     \<and> (t = [] \<or> (\<not> isspace (hd t) \<and> \<not> isspace (last t)))"

definition is_rtrimmed :: "string \<Rightarrow> string \<Rightarrow> bool" where
  "is_rtrimmed s r \<longleftrightarrow>
     (\<exists>b. s = r @ b \<and> list_all isspace b) \<and> (r = [] \<or> \<not> isspace (last r))"

definition spec_formatted :: "string \<Rightarrow> bool \<Rightarrow> bool \<Rightarrow> string \<Rightarrow> bool" where
  "spec_formatted txt linebreak blockquote out \<longleftrightarrow>
     (\<exists>t1 t2.
        (if blockquote then \<exists>t. is_trimmed txt t \<and> t1 = ''> '' @ t else t1 = txt)
      \<and> (if linebreak then \<exists>r. is_rtrimmed t1 r \<and> t2 = r @ ''  '' @ [LF] else t2 = t1)
      \<and> out = (if t2 \<noteq> [] \<and> last t2 = LF then t2 else t2 @ [LF]))"

text \<open>The name tokens a file in the chat contributes: those of its content under the lexer
  found for it, none when it cannot be read or no lexer is found.\<close>

definition name_tokens :: "environment \<Rightarrow> string \<Rightarrow> string \<Rightarrow> string set" where
  "name_tokens env root rel_fname =
     (case read_file env (path_join root rel_fname) of
        Inl e \<Rightarrow> {}
      | Inr content \<Rightarrow>
          (case guess_lexer_for_filename env (path_join root rel_fname) content of
             None \<Rightarrow> {}
           | Some lexer \<Rightarrow>
               set (map snd (filter (\<lambda>token. in_Token_Name (fst token)) (lexer content)))))"


text \<open>
  The prefix rule, the expansion rule and the candidate pool of the completion engine.
  \<open>pool_mode\<close> holds of a text that is completed from a pool: ordinary text, or a command
  name being typed. \<open>entries_nonempty\<close> says that the keys of an alias map are the
  names with a non-empty entry.
\<close>

definition spec_included :: "string \<Rightarrow> string \<Rightarrow> bool" where
  "spec_included last_word candidate = prefix (str_lower last_word) (str_lower candidate)"

definition spec_expand :: "alias_map \<Rightarrow> string \<Rightarrow> string \<Rightarrow> Completion set" where
  "spec_expand d last_word candidate =
     (if candidate \<in> set (dict_keys d)
      then {Completion rel_fname (- int (length last_word)) |rel_fname. rel_fname \<in> set (dict_get d candidate)}
      else {Completion candidate (- int (length last_word))})"

definition spec_pool :: "FileContentCompleter \<Rightarrow> string \<Rightarrow> string set" where
  "spec_pool self txt =
     (if hd txt = CHR ''/'' then set (get_commands (commands self))
      else set (words self) \<union> set (dict_keys (fname_to_rel_fnames self)))"

definition pool_mode :: "string \<Rightarrow> bool" where
  "pool_mode txt \<longleftrightarrow>
     str_split txt \<noteq> [] \<and> (hd txt = CHR ''/'' \<longrightarrow> length (str_split txt) = 1 \<and> \<not> isspace (last txt))"

definition entries_nonempty :: "alias_map \<Rightarrow> bool" where
  "entries_nonempty d \<longleftrightarrow> (\<forall>k. k \<in> set (dict_keys d) \<longleftrightarrow> dict_get d k \<noteq> [])"


text \<open>The logical input of a multiline capture with body lines \<open>ls\<close>: each line followed
  by a newline. \<open>files_readable\<close> says that every file in the chat can be read.\<close>

definition spec_multiline_body :: "string list \<Rightarrow> string" where
  "spec_multiline_body ls = concat (map (\<lambda>l. l @ [LF]) ls)"

definition files_readable :: "environment \<Rightarrow> string \<Rightarrow> string list \<Rightarrow> bool" where
  "files_readable env root rels \<longleftrightarrow> (\<forall>f\<in>set rels. \<not> isl (read_file env (path_join root f)))"


section \<open>Example values\<close>

definition example_io :: InputOutput where
  "example_io = \<lparr>pretty = False, yes = False, input_history_file = None,
     chat_history_file = Some ''.aider.chat.history.md'', tool_color = ''green'',
     tool_error_color = ''red'', chat_history = [], console = []\<rparr>"

text \<open>A registry whose command names carry the slash, and one whose names do not.\<close>

definition example_commands :: Commands where
  "example_commands =
     \<lparr>get_commands = [''/foo'', ''/bar''], get_command_completions = (\<lambda>cmd partial. [])\<rparr>"

definition bare_commands :: Commands where
  "bare_commands =
     \<lparr>get_commands = [''foo'', ''bar''], get_command_completions = (\<lambda>cmd partial. [])\<rparr>"

text \<open>A repository at \<open>/repo\<close>: \<open>main.py\<close> and \<open>notes\<close> can be read, a lexer is found for
  \<open>main.py\<close> only.\<close>

definition python_lexer :: lexer where
  "python_lexer content =
     [([''Keyword''], ''def''), ([''Text''], '' ''), ([''Name'', ''Function''], ''get_input''),
      ([''Punctuation''], ''('')]"

definition example_env :: environment where
  "example_env =
     \<lparr>read_file = (\<lambda>fname. if fname \<in> set [''/repo/main.py'', ''/repo/notes'']
                            then Inr ''def get_input('' else Inl OSError),
      guess_lexer_for_filename =
        (\<lambda>fname content. if fname = ''/repo/main.py'' then Some python_lexer else None)\<rparr>"

definition example_addable :: "string list" where
  "example_addable = [''README'', ''a.py'', ''dir/a.py'', ''src/io.py'', ''tests/io.py'']"

text \<open>The completer built in that repository with \<open>main.py\<close> and \<open>notes\<close> in the chat.\<close>

definition example_completer :: FileContentCompleter where
  "example_completer =
     \<lparr>commands = example_commands, addable_rel_fnames = example_addable,
      rel_fnames = [''main.py'', ''notes''],
      fname_to_rel_fnames = [(''a.py'', [''dir/a.py'']), (''io.py'', [''src/io.py'', ''tests/io.py''])],
      words = [''README'', ''a.py'', ''dir/a.py'', ''src/io.py'', ''tests/io.py'', ''main.py'',
               ''get_input'', ''notes'']\<rparr>"


section \<open>Facts about the string primitives\<close>

lemma str_endswith_LF: "str_endswith t [LF] \<longleftrightarrow> t \<noteq> [] \<and> last t = LF"
proof (cases t rule: rev_cases)
  case Nil
  then show ?thesis by (simp add: str_endswith_def)
next
  case (snoc ys y)
  then show ?thesis by (simp add: str_endswith_def)
qed

lemma str_rstrip_empty_iff: "str_rstrip s = [] \<longleftrightarrow> (\<forall>c\<in>set s. isspace c)"
  by (auto simp: str_rstrip_def dropWhile_eq_Nil_conv)

lemma str_strip_empty_iff: "str_strip s = [] \<longleftrightarrow> (\<forall>c\<in>set s. isspace c)"
proof -
  have "str_strip s = [] \<longleftrightarrow> (\<forall>c\<in>set (dropWhile isspace s). isspace c)"
    by (simp add: str_strip_def str_lstrip_def str_rstrip_empty_iff)
  also have "\<dots> \<longleftrightarrow> (\<forall>c\<in>set s. isspace c)"
  proof
    assume a: "\<forall>c\<in>set (dropWhile isspace s). isspace c"
    have "set s = set (takeWhile isspace s) \<union> set (dropWhile isspace s)"
      by (metis set_append takeWhile_dropWhile_id)
    with a show "\<forall>c\<in>set s. isspace c"
      by (auto dest: set_takeWhileD)
  next
    assume "\<forall>c\<in>set s. isspace c"
    then show "\<forall>c\<in>set (dropWhile isspace s). isspace c"
      by (auto dest: set_dropWhileD)
  qed
  finally show ?thesis .
qed

lemma str_rstrip_keep: "s \<noteq> [] \<Longrightarrow> \<not> isspace (last s) \<Longrightarrow> str_rstrip (a @ s) = a @ s"
proof (cases s rule: rev_cases)
  case Nil
  assume "s \<noteq> []" with Nil show ?thesis by simp
next
  case (snoc ys y)
  assume "\<not> isspace (last s)"
  with snoc show ?thesis by (simp add: str_rstrip_def)
qed

lemma str_rstrip_last: "str_rstrip s \<noteq> [] \<Longrightarrow> \<not> isspace (last (str_rstrip s))"
  unfolding str_rstrip_def
  by (metis hd_dropWhile last_rev rev_is_Nil_conv)

lemma str_lstrip_hd: "str_lstrip s \<noteq> [] \<Longrightarrow> \<not> isspace (hd (str_lstrip s))"
  unfolding str_lstrip_def by (rule hd_dropWhile)

lemma str_strip_last: "str_strip s \<noteq> [] \<Longrightarrow> \<not> isspace (last (str_strip s))"
  unfolding str_strip_def by (rule str_rstrip_last)

lemma str_rstrip_prefix: "\<exists>sp. s = str_rstrip s @ sp"
proof -
  have "rev s = takeWhile isspace (rev s) @ dropWhile isspace (rev s)" by simp
  then have "s = rev (dropWhile isspace (rev s)) @ rev (takeWhile isspace (rev s))"
    by (metis rev_append rev_rev_ident)
  then show ?thesis unfolding str_rstrip_def by blast
qed

lemma str_lstrip_id: "s = [] \<or> \<not> isspace (hd s) \<Longrightarrow> str_lstrip s = s"
  by (cases s) (auto simp: str_lstrip_def)

lemma str_rstrip_id: "s = [] \<or> \<not> isspace (last s) \<Longrightarrow> str_rstrip s = s"
  by (cases s rule: rev_cases) (auto simp: str_rstrip_def)

lemma str_strip_hd: "str_strip s \<noteq> [] \<Longrightarrow> \<not> isspace (hd (str_strip s))"
proof -
  assume ne: "str_strip s \<noteq> []"
  obtain sp where sp: "str_lstrip s = str_strip s @ sp"
    using str_rstrip_prefix [of "str_lstrip s"] by (auto simp: str_strip_def)
  with ne have "hd (str_strip s) = hd (str_lstrip s)" by (metis hd_append2)
  moreover from sp ne have "str_lstrip s \<noteq> []" by auto
  ultimately show ?thesis using str_lstrip_hd by simp
qed

lemma str_strip_idem: "str_strip (str_strip s) = str_strip s"
proof (cases "str_strip s = []")
  case True
  moreover have "str_strip [] = []" by (simp add: str_strip_def str_lstrip_def str_rstrip_def)
  ultimately show ?thesis by simp
next
  case False
  then have "str_lstrip (str_strip s) = str_strip s"
    by (intro str_lstrip_id) (simp add: str_strip_hd)
  moreover from False have "str_rstrip (str_strip s) = str_strip s"
    by (intro str_rstrip_id) (simp add: str_strip_last)
  ultimately show ?thesis by (simp add: str_strip_def [of "str_strip s"])
qed


section \<open>Facts about the containers and the alias map\<close>

lemma set_set_add: "set (set_add s x) = insert x (set s)"
  by (auto simp: set_add_def)

lemma set_set_update: "set (set_update s xs) = set s \<union> set xs"
  unfolding set_update_def by (induction xs arbitrary: s) (auto simp: set_set_add)

lemma set_update_absorb: "set xs \<subseteq> set s \<Longrightarrow> set_update s xs = s"
  unfolding set_update_def by (induction xs arbitrary: s) (auto simp: set_add_def)

lemma dict_get_append:
  "dict_get (dict_append d k v) k' = (if k' = k then dict_get d k @ [v] else dict_get d k')"
  by (induction d k v rule: dict_append.induct) (auto simp: dict_get_def)

lemma dict_keys_append: "set (dict_keys (dict_append d k v)) = insert k (set (dict_keys d))"
  by (induction d k v rule: dict_append.induct) (auto simp: dict_keys_def)

lemma dict_get_alias_step:
  "dict_get (alias_step d p) b = dict_get d b @ (if basename p = b \<and> p \<noteq> b then [p] else [])"
  by (auto simp: alias_step_def Let_def dict_get_append)

lemma dict_get_foldl_alias:
  "dict_get (foldl alias_step d ps) b = dict_get d b @ filter (\<lambda>p. basename p = b \<and> p \<noteq> b) ps"
  by (induction ps arbitrary: d) (simp_all add: dict_get_alias_step)

lemma dict_keys_alias_step:
  "set (dict_keys (alias_step d p)) = set (dict_keys d) \<union> (if basename p \<noteq> p then {basename p} else {})"
  by (auto simp: alias_step_def Let_def dict_keys_append)

lemma dict_keys_foldl_alias:
  "set (dict_keys (foldl alias_step d ps))
     = set (dict_keys d) \<union> {basename p |p. p \<in> set ps \<and> basename p \<noteq> p}"
  by (induction ps arbitrary: d) (auto simp: dict_keys_alias_step split: if_splits)

lemma dict_get_Nil: "dict_get [] b = []"
  by (simp add: dict_get_def)

lemma dict_keys_Nil: "dict_keys [] = []"
  by (simp add: dict_keys_def)

lemma dict_get_build_aliases:
  "dict_get (build_aliases addable) b = filter (\<lambda>p. basename p = b \<and> p \<noteq> b) addable"
  by (simp add: build_aliases_def dict_get_foldl_alias dict_get_Nil)

lemma dict_keys_build_aliases:
  "set (dict_keys (build_aliases addable)) = {basename p |p. p \<in> set addable \<and> basename p \<noteq> p}"
  by (simp add: build_aliases_def dict_keys_foldl_alias dict_keys_Nil)

lemma basename_no_slash: "CHR ''/'' \<notin> set (basename p)"
  unfolding basename_def by (auto dest: set_takeWhileD)

lemma basename_id: "CHR ''/'' \<notin> set s \<Longrightarrow> basename s = s"
  unfolding basename_def by (subst takeWhile_eq_all_conv [THEN iffD2]) auto

lemma basename_idem: "basename (basename p) = basename p"
  by (simp add: basename_id basename_no_slash)


section \<open>Facts about the transcript and the index\<close>

lemma append_chat_history_steps:
  "append_chat_history self txt linebreak blockquote =
     (case chat_history_file self of
        None \<Rightarrow> self
      | Some path \<Rightarrow>
          self\<lparr>chat_history := chat_history self
                  @ spec_final_newline (spec_linebreak linebreak (spec_blockquote blockquote txt))\<rparr>)"
  by (simp add: append_chat_history_def spec_final_newline_def spec_linebreak_def
      spec_blockquote_def str_endswith_LF Let_def split: option.splits)

lemma is_rtrimmed_unique:
  assumes "is_rtrimmed s r"
  shows "r = str_rstrip s"
proof -
  from assms obtain b where b: "s = r @ b" "list_all isspace b"
    and r: "r = [] \<or> \<not> isspace (last r)"
    by (auto simp: is_rtrimmed_def)
  from b(2) have "dropWhile isspace (rev b @ rev r) = dropWhile isspace (rev r)"
    by (intro dropWhile_append2) (simp add: list_all_iff)
  then have "str_rstrip s = str_rstrip r"
    by (simp add: str_rstrip_def b(1))
  with r show ?thesis by (simp add: str_rstrip_id)
qed

lemma is_rtrimmed_rstrip: "is_rtrimmed s (str_rstrip s)"
proof -
  have "rev s = takeWhile isspace (rev s) @ dropWhile isspace (rev s)" by simp
  then have "s = rev (dropWhile isspace (rev s)) @ rev (takeWhile isspace (rev s))"
    by (metis rev_append rev_rev_ident)
  then have "s = str_rstrip s @ rev (takeWhile isspace (rev s))"
    by (simp add: str_rstrip_def)
  moreover have "list_all isspace (rev (takeWhile isspace (rev s)))"
    by (auto simp: list_all_iff dest: set_takeWhileD)
  moreover have "str_rstrip s = [] \<or> \<not> isspace (last (str_rstrip s))"
    using str_rstrip_last by blast
  ultimately show ?thesis unfolding is_rtrimmed_def by blast
qed

lemma is_trimmed_unique:
  assumes "is_trimmed s t"
  shows "t = str_strip s"
proof -
  from assms obtain a b where s: "s = a @ t @ b" and a: "list_all isspace a"
    and b: "list_all isspace b" and t: "t = [] \<or> (\<not> isspace (hd t) \<and> \<not> isspace (last t))"
    by (auto simp: is_trimmed_def)
  show ?thesis
  proof (cases "t = []")
    case True
    with s a b have "\<forall>c\<in>set s. isspace c" by (auto simp: list_all_iff)
    then have "str_strip s = []" by (simp add: str_strip_empty_iff)
    with True show ?thesis by simp
  next
    case False
    from a have "dropWhile isspace (a @ t @ b) = dropWhile isspace (t @ b)"
      by (intro dropWhile_append2) (simp add: list_all_iff)
    moreover from False t have "dropWhile isspace (t @ b) = t @ b"
      by (cases t) auto
    ultimately have "str_lstrip s = t @ b"
      by (simp add: str_lstrip_def s)
    moreover from b False t have "is_rtrimmed (t @ b) t"
      by (auto simp: is_rtrimmed_def)
    ultimately show ?thesis
      using is_rtrimmed_unique by (simp add: str_strip_def)
  qed
qed

lemma is_trimmed_strip: "is_trimmed s (str_strip s)"
proof -
  have "s = takeWhile isspace s @ str_lstrip s"
    by (simp add: str_lstrip_def)
  moreover obtain b where "str_lstrip s = str_strip s @ b" "list_all isspace b"
    using is_rtrimmed_rstrip [of "str_lstrip s"] by (auto simp: is_rtrimmed_def str_strip_def)
  ultimately have "s = takeWhile isspace s @ str_strip s @ b" "list_all isspace b"
    by simp_all
  moreover have "list_all isspace (takeWhile isspace s)"
    by (auto simp: list_all_iff dest: set_takeWhileD)
  moreover have "str_strip s = [] \<or> (\<not> isspace (hd (str_strip s)) \<and> \<not> isspace (last (str_strip s)))"
    using str_strip_hd str_strip_last by blast
  ultimately show ?thesis unfolding is_trimmed_def by blast
qed

lemma spec_formatted_iff:
  "spec_formatted txt linebreak blockquote out \<longleftrightarrow>
     out = spec_final_newline (spec_linebreak linebreak (spec_blockquote blockquote txt))"
proof
  assume "spec_formatted txt linebreak blockquote out"
  then obtain t1 t2 where
    s1: "if blockquote then \<exists>t. is_trimmed txt t \<and> t1 = ''> '' @ t else t1 = txt"
    and s2: "if linebreak then \<exists>r. is_rtrimmed t1 r \<and> t2 = r @ ''  '' @ [LF] else t2 = t1"
    and s3: "out = (if t2 \<noteq> [] \<and> last t2 = LF then t2 else t2 @ [LF])"
    unfolding spec_formatted_def by blast
  from s1 have "t1 = spec_blockquote blockquote txt"
    by (auto simp: spec_blockquote_def dest: is_trimmed_unique split: if_splits)
  moreover from s2 have "t2 = spec_linebreak linebreak t1"
    by (auto simp: spec_linebreak_def dest: is_rtrimmed_unique split: if_splits)
  ultimately show "out = spec_final_newline (spec_linebreak linebreak (spec_blockquote blockquote txt))"
    using s3 by (simp add: spec_final_newline_def)
next
  assume out: "out = spec_final_newline (spec_linebreak linebreak (spec_blockquote blockquote txt))"
  let ?t1 = "spec_blockquote blockquote txt" and ?t2 = "spec_linebreak linebreak (spec_blockquote blockquote txt)"
  have "if blockquote then \<exists>t. is_trimmed txt t \<and> ?t1 = ''> '' @ t else ?t1 = txt"
    using is_trimmed_strip [of "txt"] by (auto simp: spec_blockquote_def)
  moreover have "if linebreak then \<exists>r. is_rtrimmed ?t1 r \<and> ?t2 = r @ ''  '' @ [LF] else ?t2 = ?t1"
    using is_rtrimmed_rstrip [of "?t1"] by (auto simp: spec_linebreak_def)
  moreover have "out = (if ?t2 \<noteq> [] \<and> last ?t2 = LF then ?t2 else ?t2 @ [LF])"
    by (simp add: out spec_final_newline_def)
  ultimately show "spec_formatted txt linebreak blockquote out"
    unfolding spec_formatted_def by blast
qed

lemma append_blockquote_linebreak:
  assumes "str_strip txt \<noteq> []"
  shows "spec_final_newline (spec_linebreak True (spec_blockquote True txt))
           = ''> '' @ str_strip txt @ ''  '' @ [LF]"
proof -
  have "str_rstrip (''> '' @ str_strip txt) = ''> '' @ str_strip txt"
    using assms by (intro str_rstrip_keep) (simp_all add: str_strip_last)
  then show ?thesis
    by (simp add: spec_final_newline_def spec_linebreak_def spec_blockquote_def)
qed

lemma append_blockquote_strip:
  "append_chat_history self (str_strip txt) linebreak True
     = append_chat_history self txt linebreak True"
  by (simp add: append_chat_history_def str_strip_idem)

lemma index_files_fails:
  "isl (index_files env root rels ws) \<longleftrightarrow> (\<exists>f\<in>set rels. isl (read_file env (path_join root f)))"
  by (induction rels arbitrary: ws) (auto simp: Let_def split: sum.splits option.splits)

lemma index_files_words:
  "index_files env root rels ws = Inr ws'
     \<Longrightarrow> set ws' = set ws \<union> set rels \<union> (\<Union>f\<in>set rels. name_tokens env root f)"
proof (induction rels arbitrary: ws)
  case Nil
  then show ?case by simp
next
  case (Cons f rels)
  show ?case
  proof (cases "read_file env (path_join root f)")
    case (Inl e)
    with Cons.prems show ?thesis by (simp add: Let_def)
  next
    case (Inr content)
    show ?thesis
    proof (cases "guess_lexer_for_filename env (path_join root f) content")
      case None
      with Inr Cons.prems have "index_files env root rels (set_add ws f) = Inr ws'"
        by (simp add: Let_def)
      from Cons.IH [OF this] Inr None show ?thesis
        by (auto simp: set_set_add name_tokens_def)
    next
      case (Some lexer)
      let ?names = "map snd (filter (\<lambda>token. in_Token_Name (fst token)) (lexer content))"
      from Some Inr Cons.prems
      have "index_files env root rels (set_update (set_add ws f) ?names) = Inr ws'"
        by (simp add: Let_def)
      from Cons.IH [OF this] have "set ws' = set (set_update (set_add ws f) ?names) \<union> set rels \<union> (\<Union>f\<in>set rels. name_tokens env root f)" .
      moreover have "name_tokens env root f = set ?names"
        using Inr Some by (simp add: name_tokens_def)
      ultimately show ?thesis
        by (auto simp: set_set_add set_set_update)
    qed
  qed
qed


section \<open>Facts about construction and completion\<close>

lemma example_init:
  "FileContentCompleter_init example_env ''/repo'' [''main.py'', ''notes''] example_addable example_commands
     = Inr example_completer"
  by (simp add: FileContentCompleter_init_def example_env_def example_addable_def
      example_completer_def path_join_def str_startswith_def str_endswith_def set_update_def
      set_add_def build_aliases_def alias_step_def basename_def python_lexer_def
      in_Token_Name_def Let_def)

lemma init_fields:
  assumes "FileContentCompleter_init env root rels addable cmds = Inr self"
  shows "fname_to_rel_fnames self = build_aliases addable"
    and "commands self = cmds"
    and "index_files env root rels (set_update [] addable) = Inr (words self)"
  using assms by (auto simp: FileContentCompleter_init_def split: sum.splits)

lemma str_startswith_prefix: "str_startswith s p \<longleftrightarrow> prefix p s"
  unfolding str_startswith_def prefix_def
  by (metis append_eq_conv_conj append_take_drop_id)

lemma str_lower_prefix: "prefix p s \<Longrightarrow> prefix (str_lower p) (str_lower s)"
  by (auto simp: str_lower_def prefix_def)

lemma length_str_lower: "length (str_lower s) = length s"
  by (simp add: str_lower_def)

lemma str_lower_eq_length: "str_lower a = str_lower b \<Longrightarrow> length a = length b"
  by (metis length_str_lower)

lemma set_yield_matches:
  "set (yield_matches d last_word cs) =
     (\<Union>w\<in>{w \<in> set cs. spec_included last_word w}.
        if dict_get d w \<noteq> []
        then {Completion rel_fname (- int (length last_word)) |rel_fname. rel_fname \<in> set (dict_get d w)}
        else {Completion w (- int (length last_word))})"
  by (induction cs) (auto simp: spec_included_def str_startswith_prefix Let_def)

lemma yield_matches_lower:
  "str_lower a = str_lower b \<Longrightarrow> yield_matches d a cs = yield_matches d b cs"
  by (induction cs) (auto simp: Let_def dest: str_lower_eq_length)

lemma entries_nonempty_build: "entries_nonempty (build_aliases addable)"
  by (auto simp: entries_nonempty_def dict_get_build_aliases dict_keys_build_aliases filter_empty_conv)

lemma init_entries_nonempty:
  "FileContentCompleter_init env root rels addable cmds = Inr self
     \<Longrightarrow> entries_nonempty (fname_to_rel_fnames self)"
  using entries_nonempty_build [of addable]
  by (auto simp: FileContentCompleter_init_def split: sum.splits)

lemma fst_get_completions_pool:
  "pool_mode txt \<Longrightarrow>
   fst (get_completions self txt) =
     yield_matches (fname_to_rel_fnames self) (last (str_split txt))
       (if hd txt = CHR ''/'' then get_commands (commands self)
        else set_update (words self) (dict_keys (fname_to_rel_fnames self)))"
  by (auto simp: get_completions_def pool_mode_def Let_def)


lemma fst_get_completions_text:
  "str_split txt \<noteq> [] \<Longrightarrow> hd txt \<noteq> CHR ''/'' \<Longrightarrow>
   fst (get_completions self txt) =
     yield_matches (fname_to_rel_fnames self) (last (str_split txt))
       (set_update (words self) (dict_keys (fname_to_rel_fnames self)))"
  by (simp add: fst_get_completions_pool pool_mode_def)

lemma yielded_text_cases:
  assumes "Completion t pos \<in> set (yield_matches d last_word cs)"
  obtains (expanded) w where "w \<in> set cs" and "spec_included last_word w" and "t \<in> set (dict_get d w)"
  | (own) "t \<in> set cs" and "spec_included last_word t" and "dict_get d t = []"
  using assms unfolding set_yield_matches by (auto split: if_splits)

lemma alias_expansion:
  assumes d: "fname_to_rel_fnames self = build_aliases addable"
    and p: "p \<in> set addable" "basename p \<noteq> p"
    and free: "str_split txt \<noteq> []" "hd txt \<noteq> CHR ''/''"
    and pre: "prefix (last (str_split txt)) (basename p)"
  shows "(\<forall>q\<in>set addable. basename q = basename p \<and> q \<noteq> basename p \<longrightarrow>
            Completion q (- int (length (last (str_split txt)))) \<in> set (fst (get_completions self txt)))
         \<and> basename p \<notin> completion_text ` set (fst (get_completions self txt))"
proof
  let ?d = "build_aliases addable" and ?b = "basename p" and ?lw = "last (str_split txt)"
  let ?cs = "set_update (words self) (dict_keys ?d)"
  have res: "fst (get_completions self txt) = yield_matches ?d ?lw ?cs"
    using fst_get_completions_text [OF free] d by simp
  have key: "?b \<in> set ?cs"
    using p by (auto simp: set_set_update dict_keys_build_aliases)
  have inc: "spec_included ?lw ?b"
    using pre by (simp add: spec_included_def str_lower_prefix)
  have entry: "dict_get ?d ?b = filter (\<lambda>q. basename q = ?b \<and> q \<noteq> ?b) addable"
    by (rule dict_get_build_aliases)
  with p have ne: "dict_get ?d ?b \<noteq> []"
    by (auto simp: filter_empty_conv)
  show "\<forall>q\<in>set addable. basename q = ?b \<and> q \<noteq> ?b \<longrightarrow>
          Completion q (- int (length ?lw)) \<in> set (fst (get_completions self txt))"
  proof (intro ballI impI)
    fix q assume "q \<in> set addable" "basename q = ?b \<and> q \<noteq> ?b"
    then have "q \<in> set (dict_get ?d ?b)" by (simp add: entry)
    with key inc ne show "Completion q (- int (length ?lw)) \<in> set (fst (get_completions self txt))"
      unfolding res set_yield_matches by force
  qed
  show "?b \<notin> completion_text ` set (fst (get_completions self txt))"
  proof
    assume "?b \<in> completion_text ` set (fst (get_completions self txt))"
    then obtain c where c: "c \<in> set (yield_matches ?d ?lw ?cs)" "completion_text c = ?b"
      unfolding res by auto
    from c(2) have "Completion ?b (start_position c) = c"
      by (cases c) simp
    with c(1) have "Completion ?b (start_position c) \<in> set (yield_matches ?d ?lw ?cs)"
      by simp
    then show False
    proof (cases rule: yielded_text_cases)
      case (expanded w)
      then have "basename ?b = w \<and> ?b \<noteq> w" by (simp add: dict_get_build_aliases)
      then show False by (simp add: basename_idem)
    next
      case own
      with ne show False by simp
    qed
  qed
qed


lemma set_pool:
  "set (if hd txt = CHR ''/'' then get_commands (commands self)
        else set_update (words self) (dict_keys (fname_to_rel_fnames self))) = spec_pool self txt"
  by (simp add: spec_pool_def set_set_update)

lemma yield_matches_expand:
  assumes "entries_nonempty d"
  shows "set (yield_matches d last_word cs) =
     (\<Union>w\<in>{w \<in> set cs. spec_included last_word w}. spec_expand d last_word w)"
proof -
  have "\<And>w. (if dict_get d w \<noteq> []
        then {Completion rel_fname (- int (length last_word)) |rel_fname. rel_fname \<in> set (dict_get d w)}
        else {Completion w (- int (length last_word))}) = spec_expand d last_word w"
    using assms by (simp add: spec_expand_def entries_nonempty_def)
  then show ?thesis by (simp add: set_yield_matches)
qed

lemma case_varied_prefix:
  "str_lower last_word = str_lower (take n t) \<Longrightarrow> spec_included last_word t"
  by (simp add: spec_included_def str_lower_prefix take_is_prefix)

lemma example_entries: "entries_nonempty (fname_to_rel_fnames example_completer)"
  using entries_nonempty_build [of example_addable] init_fields(1) [OF example_init] by simp

lemma snd_get_completions:
  "snd (get_completions self txt) =
     (if str_split txt \<noteq> [] \<and> hd txt \<noteq> CHR ''/''
      then self\<lparr>words := set_update (words self) (dict_keys (fname_to_rel_fnames self))\<rparr>
      else self)"
  by (simp add: get_completions_def Let_def)

lemma set_update_twice: "set_update (set_update s xs) xs = set_update s xs"
  by (rule set_update_absorb) (simp add: set_set_update)

lemma fst_get_completions_updated:
  "fst (get_completions
          (self\<lparr>words := set_update (words self) (dict_keys (fname_to_rel_fnames self))\<rparr>) txt)
     = fst (get_completions self txt)"
  by (simp add: get_completions_def Let_def set_update_twice)

lemma lower_char_slash: "lower_char c = CHR ''/'' \<Longrightarrow> c = CHR ''/''"
  by (simp add: lower_char_def split: option.splits if_splits)

lemma included_slash:
  assumes "spec_included (CHR ''/'' # rest) w"
  shows "CHR ''/'' \<in> set w"
proof -
  have "lower_char CHR ''/'' = CHR ''/''"
    by (simp add: lower_char_def)
  with assms obtain z where "str_lower w = (CHR ''/'' # str_lower rest) @ z"
    by (auto simp: spec_included_def prefix_def str_lower_def)
  then obtain c cs where "w = c # cs" "lower_char c = CHR ''/''"
    by (cases w) (auto simp: str_lower_def)
  then show ?thesis by (auto dest: lower_char_slash)
qed

lemma dict_get_slash: "CHR ''/'' \<in> set w \<Longrightarrow> dict_get (build_aliases addable) w = []"
  using basename_no_slash by (auto simp: dict_get_build_aliases filter_empty_conv)


lemma init_commands:
  "FileContentCompleter_init env root rels addable cmds = Inr self \<Longrightarrow>
   FileContentCompleter_init env root rels addable cmds' = Inr (self\<lparr>commands := cmds'\<rparr>)"
  by (auto simp: FileContentCompleter_init_def split: sum.splits)


section \<open>Facts about the input loop\<close>

lemma init_succeeds:
  assumes "files_readable env root rels"
  obtains self where "FileContentCompleter_init env root rels addable cmds = Inr self"
proof -
  have "\<not> isl (index_files env root rels (set_update [] addable))"
    using assms by (simp add: index_files_fails files_readable_def)
  then obtain ws where "index_files env root rels (set_update [] addable) = Inr ws"
    by (cases "index_files env root rels (set_update [] addable)") auto
  then show ?thesis
    using that by (simp add: FileContentCompleter_init_def)
qed

lemma read_loop_body:
  assumes "files_readable env root rels"
    and "\<forall>l\<in>set ls. str_strip l \<noteq> ''}''"
  shows "\<exists>shown'. read_loop env root rels addable cmds show True inp shown (ls @ ''}'' # rest)
           = Inr (inp @ spec_multiline_body ls, shown', rest)"
  using assms(2)
proof (induction ls arbitrary: inp shown "show")
  case Nil
  obtain self where "FileContentCompleter_init env root rels addable cmds = Inr self"
    using init_succeeds [OF assms(1)] .
  then show ?case
    by (simp add: spec_multiline_body_def str_strip_def str_lstrip_def str_rstrip_def isspace_def)
next
  case (Cons l ls)
  obtain self where "FileContentCompleter_init env root rels addable cmds = Inr self"
    using init_succeeds [OF assms(1)] .
  moreover from Cons.prems have "str_strip l \<noteq> ''}''" "\<forall>l\<in>set ls. str_strip l \<noteq> ''}''"
    by simp_all
  moreover from Cons.IH [OF this(2)]
  obtain shown' where "read_loop env root rels addable cmds ''. '' True (inp @ l @ [LF])
        (shown @ [PromptShown ''. '']) (ls @ ''}'' # rest)
      = Inr ((inp @ l @ [LF]) @ spec_multiline_body ls, shown', rest)"
    by blast
  ultimately show ?case
    by (simp add: spec_multiline_body_def)
qed


section \<open>The transcript writer\<close>

text \<open>
  C7. With a chat history file configured, \<open>append_chat_history\<close> appends to it the one
  text that the three steps produce in this order: with \<open>blockquote\<close> the text is trimmed
  at both ends and prefixed by \<open>"> "\<close>; with \<open>linebreak\<close> the whitespace at the end is
  removed and two blanks and a newline are appended; a newline is appended exactly when
  the text does not end with one. With no file configured nothing changes. For \<open>"hello"\<close>
  with both flags the text written is \<open>"> hello  \n"\<close>, and so it is for \<open>hello world\<close>
  padded with a tab, blanks and a newline; with one flag only one of the two trimmings
  takes place, with none the text is kept.
\<close>

theorem append_chat_history_format:
  "(case chat_history_file self of
      None \<Rightarrow> append_chat_history self txt linebreak blockquote = self
    | Some path \<Rightarrow>
        (\<exists>out. append_chat_history self txt linebreak blockquote
                  = self\<lparr>chat_history := chat_history self @ out\<rparr>
               \<and> spec_formatted txt linebreak blockquote out
               \<and> (\<forall>out'. spec_formatted txt linebreak blockquote out' \<longrightarrow> out' = out)))
   \<and> chat_history (append_chat_history example_io ''hello'' True True) = ''> hello  '' @ [LF]
   \<and> chat_history (append_chat_history example_io ([CHR 0x09] @ '' hello world '' @ [LF]) True True)
        = ''> hello world  '' @ [LF]
   \<and> chat_history (append_chat_history example_io ('' hello '' @ [CHR 0x09]) True False)
        = '' hello  '' @ [LF]
   \<and> chat_history (append_chat_history example_io '' hello '' False True) = ''> hello'' @ [LF]
   \<and> chat_history (append_chat_history example_io ('' hello '' @ [LF]) False False)
        = '' hello '' @ [LF]"
proof (intro conjI)
  show "case chat_history_file self of
      None \<Rightarrow> append_chat_history self txt linebreak blockquote = self
    | Some path \<Rightarrow>
        (\<exists>out. append_chat_history self txt linebreak blockquote
                  = self\<lparr>chat_history := chat_history self @ out\<rparr>
               \<and> spec_formatted txt linebreak blockquote out
               \<and> (\<forall>out'. spec_formatted txt linebreak blockquote out' \<longrightarrow> out' = out))"
    by (simp add: append_chat_history_steps spec_formatted_iff split: option.splits)
qed (simp_all add: example_io_def append_chat_history_def str_strip_def str_rstrip_def
      str_lstrip_def isspace_def str_endswith_def)


theorem append_chat_history_format_witness:
  "append_chat_history example_io (''  hello '' @ [LF]) True True
     = example_io\<lparr>chat_history := chat_history example_io @ ''> hello  '' @ [LF]\<rparr>"
proof -
  have dest: "chat_history_file example_io = Some ''.aider.chat.history.md''"
    by (simp add: example_io_def)
  have "is_trimmed (''  hello '' @ [LF]) ''hello''"
    unfolding is_trimmed_def
    by (intro conjI exI [of _ "''  ''"] exI [of _ "'' '' @ [LF]"]) (simp_all add: isspace_def)
  moreover have "is_rtrimmed (''> '' @ ''hello'') ''> hello''"
    unfolding is_rtrimmed_def by (intro conjI exI [of _ "''''"]) (simp_all add: isspace_def)
  ultimately have spec: "spec_formatted (''  hello '' @ [LF]) True True (''> hello  '' @ [LF])"
    unfolding spec_formatted_def
    by (intro exI [of _ "''> '' @ ''hello''"] exI [of _ "''> hello'' @ ''  '' @ [LF]"]) auto
  from append_chat_history_format [of example_io "''  hello '' @ [LF]" True True, THEN conjunct1]
  obtain out where out: "append_chat_history example_io (''  hello '' @ [LF]) True True
        = example_io\<lparr>chat_history := chat_history example_io @ out\<rparr>"
    and uniq: "\<forall>out'. spec_formatted (''  hello '' @ [LF]) True True out' \<longrightarrow> out' = out"
    by (auto simp: dest)
  from uniq spec have "out = ''> hello  '' @ [LF]" by blast
  with out show ?thesis by simp
qed

text \<open>
  C8, as the code has it. \<open>confirm_ask\<close> and \<open>prompt_ask\<close> hand to the transcript, with
  \<open>linebreak\<close> and \<open>blockquote\<close> set, the trimmed question and the trimmed response
  joined by one blank; the response is \<open>"yes"\<close> when the \<open>yes\<close> option is on.
\<close>

theorem ask_transcript:
  "snd (confirm_ask self question answer) =
     append_chat_history self
       (str_strip question @ '' '' @ str_strip (if yes self then ''yes'' else answer)) True True
   \<and> snd (prompt_ask self question answer) =
     append_chat_history self
       (str_strip question @ '' '' @ str_strip (if yes self then ''yes'' else answer)) True True"
  by (simp add: confirm_ask_def prompt_ask_def Let_def)


text \<open>
  C8 as stated fails. The question \<open>"ok? "\<close> ends with a blank: the text handed over is
  \<open>"ok? y"\<close>, whereas the unmodified question joined to the response is \<open>"ok?  y"\<close>, and
  the two leave different transcripts.
\<close>

theorem ask_verbatim_counterexample:
  "snd (confirm_ask example_io ''ok? '' ''y'')
     \<noteq> append_chat_history example_io (''ok? '' @ '' '' @ str_strip ''y'') True True
   \<and> snd (prompt_ask example_io ''ok? '' ''y'')
     \<noteq> append_chat_history example_io (''ok? '' @ '' '' @ str_strip ''y'') True True"
  by (simp add: confirm_ask_def prompt_ask_def example_io_def append_chat_history_def
      str_strip_def str_rstrip_def str_lstrip_def isspace_def str_endswith_def Let_def)


text \<open>
  C10. \<open>tool_error\<close> leaves the chat history as it is when the message consists of
  whitespace only (the empty message included); any other message is appended with
  \<open>blockquote\<close> and \<open>linebreak\<close> formatting, which with a chat history file configured
  adds \<open>"> "\<close>, the trimmed message, two blanks and a newline.
\<close>

theorem tool_error_transcript:
  "chat_history (tool_error self message) =
     (if \<forall>c\<in>set message. isspace c then chat_history self
      else chat_history (append_chat_history self message True True))
   \<and> chat_history (tool_error self message) =
     (if (\<forall>c\<in>set message. isspace c) \<or> chat_history_file self = None then chat_history self
      else chat_history self @ ''> '' @ str_strip message @ ''  '' @ [LF])"
proof (cases "\<forall>c\<in>set message. isspace c")
  case True
  then have "str_strip message = []" by (simp add: str_strip_empty_iff)
  with True show ?thesis by (simp add: tool_error_def)
next
  case False
  then have ne: "str_strip message \<noteq> []" by (simp add: str_strip_empty_iff)
  then have a: "chat_history (tool_error self message)
      = chat_history (append_chat_history self message True True)"
    by (simp add: tool_error_def Let_def append_blockquote_strip)
  have b: "chat_history (append_chat_history self message True True)
      = (if chat_history_file self = None then chat_history self
         else chat_history self @ ''> '' @ str_strip message @ ''  '' @ [LF])"
    using append_blockquote_linebreak [OF ne]
    by (simp add: append_chat_history_steps split: option.splits)
  from False show ?thesis unfolding a b by auto
qed


theorem tool_error_transcript_witness:
  "chat_history (tool_error example_io (''  '' @ [LF])) = []
   \<and> chat_history (tool_error example_io '' no such file '') = ''> no such file  '' @ [LF]"
  using tool_error_transcript [of example_io "''  '' @ [LF]"]
    tool_error_transcript [of example_io "'' no such file ''"]
  by (simp add: example_io_def isspace_def str_strip_def str_rstrip_def str_lstrip_def
      append_chat_history_def str_endswith_def)


section \<open>The candidate index and the alias map\<close>

text \<open>
  C2, as the code has it. The alias map built by the constructor has, for a name \<open>b\<close>,
  exactly the addable paths with basename \<open>b\<close> that differ from \<open>b\<close>, in their order;
  \<open>b\<close> is a key exactly when there is such a path. An addable path that is its own
  basename creates no entry when no other addable path has that basename.
\<close>

theorem alias_map_entries:
  assumes "FileContentCompleter_init env root rels addable cmds = Inr self"
  shows "dict_get (fname_to_rel_fnames self) b = filter (\<lambda>p. basename p = b \<and> p \<noteq> b) addable
   \<and> (b \<in> set (dict_keys (fname_to_rel_fnames self))
        \<longleftrightarrow> (\<exists>p\<in>set addable. basename p = b \<and> p \<noteq> b))
   \<and> (b \<in> set addable \<and> (\<forall>p\<in>set addable. basename p = b \<longrightarrow> p = b)
        \<longrightarrow> b \<notin> set (dict_keys (fname_to_rel_fnames self)))"
  unfolding init_fields(1) [OF assms]
  by (auto simp: dict_get_build_aliases dict_keys_build_aliases)

theorem alias_map_entries_witness:
  "dict_get (fname_to_rel_fnames example_completer) ''io.py'' = [''src/io.py'', ''tests/io.py'']
   \<and> ''io.py'' \<in> set (dict_keys (fname_to_rel_fnames example_completer))
   \<and> ''README'' \<notin> set (dict_keys (fname_to_rel_fnames example_completer))"
  using alias_map_entries [OF example_init, of "''io.py''"]
    alias_map_entries [OF example_init, of "''README''"]
  by (simp add: example_addable_def basename_def)


text \<open>
  C2 as stated fails. With \<open>a.py\<close> and \<open>dir/a.py\<close> both addable, \<open>a.py\<close> is a key of the
  alias map and also a full path in the candidate set; its entry has the single path
  \<open>dir/a.py\<close>.
\<close>

theorem alias_key_counterexample:
  "FileContentCompleter_init example_env ''/repo'' [''main.py'', ''notes''] example_addable example_commands
     = Inr example_completer
   \<and> ''a.py'' \<in> set (dict_keys (fname_to_rel_fnames example_completer))
   \<and> ''a.py'' \<in> set example_addable
   \<and> ''a.py'' \<in> set (words example_completer)
   \<and> dict_get (fname_to_rel_fnames example_completer) ''a.py'' = [''dir/a.py'']"
  using example_init
  by (simp add: example_completer_def example_addable_def dict_keys_def dict_get_def)


text \<open>
  C9. The construction fails exactly when one of the files in the chat cannot be read.
  When it succeeds the candidate set holds the addable paths, the paths of the files in
  the chat, and the name tokens of those files for which a lexer was found; a file without
  a lexer contributes its path and no tokens.
\<close>

theorem index_construction:
  "(isl (FileContentCompleter_init env root rels addable cmds)
      \<longleftrightarrow> (\<exists>f\<in>set rels. isl (read_file env (path_join root f))))
   \<and> (\<forall>self. FileContentCompleter_init env root rels addable cmds = Inr self
        \<longrightarrow> set (words self) = set addable \<union> set rels \<union> (\<Union>f\<in>set rels. name_tokens env root f))"
proof
  have "isl (FileContentCompleter_init env root rels addable cmds)
      \<longleftrightarrow> isl (index_files env root rels (set_update [] addable))"
    by (simp add: FileContentCompleter_init_def split: sum.splits)
  then show "isl (FileContentCompleter_init env root rels addable cmds)
      \<longleftrightarrow> (\<exists>f\<in>set rels. isl (read_file env (path_join root f)))"
    by (simp add: index_files_fails)
next
  show "\<forall>self. FileContentCompleter_init env root rels addable cmds = Inr self
        \<longrightarrow> set (words self) = set addable \<union> set rels \<union> (\<Union>f\<in>set rels. name_tokens env root f)"
  proof (intro allI impI)
    fix self assume "FileContentCompleter_init env root rels addable cmds = Inr self"
    from index_files_words [OF init_fields(3) [OF this]]
    show "set (words self) = set addable \<union> set rels \<union> (\<Union>f\<in>set rels. name_tokens env root f)"
      by (simp add: set_set_update)
  qed
qed



theorem index_construction_witness:
  "\<not> isl (FileContentCompleter_init example_env ''/repo'' [''main.py'', ''notes'']
            example_addable example_commands)
   \<and> isl (FileContentCompleter_init example_env ''/repo'' [''main.py'', ''gone'']
            example_addable example_commands)
   \<and> set (words example_completer) =
        set example_addable \<union> {''main.py'', ''notes''} \<union> {''get_input''}"
proof -
  have tokens: "name_tokens example_env ''/repo'' ''main.py'' = {''get_input''}"
    "name_tokens example_env ''/repo'' ''notes'' = {}"
    by (simp_all add: name_tokens_def example_env_def path_join_def str_startswith_def
        str_endswith_def python_lexer_def in_Token_Name_def)
  have gone: "isl (read_file example_env (path_join ''/repo'' ''gone''))"
    by (simp add: example_env_def path_join_def str_startswith_def str_endswith_def)
  have ok: "\<not> isl (FileContentCompleter_init example_env ''/repo'' [''main.py'', ''notes'']
            example_addable example_commands)"
    by (simp add: example_init)
  have "\<exists>f\<in>set [''main.py'', ''gone'']. isl (read_file example_env (path_join ''/repo'' f))"
    using gone by simp
  then have bad: "isl (FileContentCompleter_init example_env ''/repo'' [''main.py'', ''gone'']
            example_addable example_commands)"
    by (rule index_construction [THEN conjunct1, THEN iffD2])
  have "set (words example_completer) =
      set example_addable \<union> set [''main.py'', ''notes'']
        \<union> (\<Union>f\<in>set [''main.py'', ''notes'']. name_tokens example_env ''/repo'' f)"
    by (rule index_construction [THEN conjunct2, rule_format, OF example_init])
  then have "set (words example_completer) =
        set example_addable \<union> {''main.py'', ''notes''} \<union> {''get_input''}"
    by (simp add: tokens)
  with ok bad show ?thesis by (intro conjI)
qed



section \<open>Completion\<close>

text \<open>
  C3. Let \<open>p\<close> be an addable path whose basename is not itself one of the known paths.
  Completing ordinary text whose last word is a prefix of that basename yields every
  addable path with the same basename, and yields no completion whose text is the bare
  basename.
\<close>

theorem basename_completion:
  assumes "FileContentCompleter_init env root rels addable cmds = Inr self"
    and "p \<in> set addable"
    and "basename p \<notin> set addable \<union> set rels"
    and "str_split txt \<noteq> []" and "hd txt \<noteq> CHR ''/''"
    and "prefix (last (str_split txt)) (basename p)"
  shows "(\<forall>q\<in>set addable. basename q = basename p \<longrightarrow>
            Completion q (- int (length (last (str_split txt)))) \<in> set (fst (get_completions self txt)))
         \<and> basename p \<notin> completion_text ` set (fst (get_completions self txt))"
proof -
  from assms(2,3) have "basename p \<noteq> p" by auto
  from alias_expansion [OF init_fields(1) [OF assms(1)] assms(2) this assms(4,5,6)] assms(3)
  show ?thesis by auto
qed


theorem basename_completion_witness:
  "Completion ''src/io.py'' (- 1) \<in> set (fst (get_completions example_completer ''open i''))
   \<and> Completion ''tests/io.py'' (- 1) \<in> set (fst (get_completions example_completer ''open i''))
   \<and> ''io.py'' \<notin> completion_text ` set (fst (get_completions example_completer ''open i''))"
proof -
  have split: "str_split ''open i'' = [''open'', ''i'']"
    by (simp add: str_split_def isspace_def)
  have "(\<forall>q\<in>set example_addable. basename q = basename ''src/io.py'' \<longrightarrow>
            Completion q (- int (length (last (str_split ''open i''))))
              \<in> set (fst (get_completions example_completer ''open i'')))
         \<and> basename ''src/io.py'' \<notin> completion_text ` set (fst (get_completions example_completer ''open i''))"
    by (rule basename_completion [OF example_init])
       (simp_all add: split example_addable_def basename_def)
  then show ?thesis
    by (simp add: split example_addable_def basename_def)
qed

text \<open>
  C6. Let the text be completed from a pool (ordinary text, or a command name being
  typed) by a completer whose alias keys are the names with an entry. The completions are
  exactly what the candidates of the pool yield whose lowercase form starts with the
  lowercase last word, each in its own spelling; a text in the same mode whose last word
  differs in letter case only gets the same completions; and a candidate of which the
  last word is a prefix up to letter case is among those that yield.
\<close>

theorem prefix_rule:
  assumes "entries_nonempty (fname_to_rel_fnames self)" and "pool_mode txt"
  shows "set (fst (get_completions self txt)) =
           (\<Union>w\<in>{w \<in> spec_pool self txt. spec_included (last (str_split txt)) w}.
              spec_expand (fname_to_rel_fnames self) (last (str_split txt)) w)
         \<and> (\<forall>txt'. pool_mode txt' \<and> (hd txt' = CHR ''/'' \<longleftrightarrow> hd txt = CHR ''/'')
                  \<and> str_lower (last (str_split txt')) = str_lower (last (str_split txt))
               \<longrightarrow> fst (get_completions self txt') = fst (get_completions self txt))
         \<and> (\<forall>t\<in>spec_pool self txt. \<forall>n. str_lower (last (str_split txt)) = str_lower (take n t)
               \<longrightarrow> spec_expand (fname_to_rel_fnames self) (last (str_split txt)) t
                     \<subseteq> set (fst (get_completions self txt)))"
proof -
  let ?d = "fname_to_rel_fnames self" and ?lw = "last (str_split txt)"
  have whole: "set (fst (get_completions self txt)) =
      (\<Union>w\<in>{w \<in> spec_pool self txt. spec_included ?lw w}. spec_expand ?d ?lw w)"
    unfolding fst_get_completions_pool [OF assms(2)] yield_matches_expand [OF assms(1)] set_pool ..
  have same: "fst (get_completions self txt') = fst (get_completions self txt)"
    if "pool_mode txt'" and "hd txt' = CHR ''/'' \<longleftrightarrow> hd txt = CHR ''/''"
      and "str_lower (last (str_split txt')) = str_lower (last (str_split txt))" for txt'
    unfolding fst_get_completions_pool [OF assms(2)] fst_get_completions_pool [OF that(1)]
    using that(2) yield_matches_lower [OF that(3)] by simp
  have part: "spec_expand ?d ?lw t \<subseteq> set (fst (get_completions self txt))"
    if "t \<in> spec_pool self txt" and "str_lower ?lw = str_lower (take n t)" for t n
    unfolding whole using that(1) case_varied_prefix [OF that(2)] by blast
  from whole same part show ?thesis by blast
qed


theorem prefix_rule_witness:
  "fst (get_completions example_completer ''Get'') = fst (get_completions example_completer ''GET'')
   \<and> Completion ''get_input'' (- 3) \<in> set (fst (get_completions example_completer ''GET''))"
proof -
  have sp: "str_split ''GET'' = [''GET'']" "str_split ''Get'' = [''Get'']"
    by (simp_all add: str_split_def isspace_def)
  have pm: "pool_mode ''GET''" "pool_mode ''Get''"
    by (simp_all add: pool_mode_def sp)
  note rule = prefix_rule [OF example_entries pm(1)]
  have low: "str_lower ''Get'' = str_lower ''GET''" "str_lower ''GET'' = str_lower (take 3 ''get_input'')"
    by (simp_all add: str_lower_def lower_char_def)
  have a: "fst (get_completions example_completer ''Get'') = fst (get_completions example_completer ''GET'')"
    using rule [THEN conjunct2, THEN conjunct1, rule_format, of "''Get''"] pm(2) low(1)
    by (simp add: sp)
  have "''get_input'' \<in> spec_pool example_completer ''GET''"
    by (simp add: spec_pool_def example_completer_def)
  from rule [THEN conjunct2, THEN conjunct2, rule_format, OF this, of 3] low(2)
  have "spec_expand (fname_to_rel_fnames example_completer) ''GET'' ''get_input''
          \<subseteq> set (fst (get_completions example_completer ''GET''))"
    by (simp add: sp)
  moreover have "spec_expand (fname_to_rel_fnames example_completer) ''GET'' ''get_input''
      = {Completion ''get_input'' (- 3)}"
    by (simp add: spec_expand_def example_completer_def dict_keys_def)
  ultimately show ?thesis using a by simp
qed

text \<open>
  C1, as the code has it. \<open>get_completions\<close> never changes the alias map, the command
  registry or the two path lists. It leaves the candidate set as it is on blank text and
  on command text; on ordinary text it adds the keys of the alias map to the candidate
  set. The pool, candidate set and alias keys together, is therefore the same after the
  call, and a later call yields the same completions as it would have before.
\<close>

theorem get_completions_frame:
  "fname_to_rel_fnames (snd (get_completions self txt)) = fname_to_rel_fnames self
   \<and> commands (snd (get_completions self txt)) = commands self
   \<and> addable_rel_fnames (snd (get_completions self txt)) = addable_rel_fnames self
   \<and> rel_fnames (snd (get_completions self txt)) = rel_fnames self
   \<and> set (words (snd (get_completions self txt))) =
       (if str_split txt \<noteq> [] \<and> hd txt \<noteq> CHR ''/''
        then set (words self) \<union> set (dict_keys (fname_to_rel_fnames self))
        else set (words self))
   \<and> set (words (snd (get_completions self txt)))
         \<union> set (dict_keys (fname_to_rel_fnames (snd (get_completions self txt))))
       = set (words self) \<union> set (dict_keys (fname_to_rel_fnames self))
   \<and> fst (get_completions (snd (get_completions self txt)) txt') = fst (get_completions self txt')"
  by (auto simp: snd_get_completions set_set_update fst_get_completions_updated)


theorem get_completions_frame_witness:
  "set (words (snd (get_completions example_completer ''/fo''))) = set (words example_completer)
   \<and> set (words (snd (get_completions example_completer ''open i'')))
       = insert ''io.py'' (set (words example_completer))
   \<and> fst (get_completions (snd (get_completions example_completer ''open i'')) ''open i'')
       = fst (get_completions example_completer ''open i'')"
proof -
  have sp: "str_split ''/fo'' = [''/fo'']" "str_split ''open i'' = [''open'', ''i'']"
    by (simp_all add: str_split_def isspace_def)
  have keys: "set (dict_keys (fname_to_rel_fnames example_completer)) = {''a.py'', ''io.py''}"
    by (simp add: example_completer_def dict_keys_def)
  have a: "''a.py'' \<in> set (words example_completer)"
    by (simp add: example_completer_def)
  show ?thesis
    using get_completions_frame [of example_completer "''/fo''" "''open i''"]
      get_completions_frame [of example_completer "''open i''" "''open i''"] a
    by (auto simp: sp keys)
qed


text \<open>
  C1 as stated fails. The example completer has the alias key \<open>io.py\<close>, which is not in its
  candidate set; after completing the ordinary text \<open>open i\<close> it is.
\<close>

theorem words_mutated_counterexample:
  "''io.py'' \<notin> set (words example_completer)
   \<and> ''io.py'' \<in> set (words (snd (get_completions example_completer ''open i'')))"
proof -
  have sp: "str_split ''open i'' = [''open'', ''i'']"
    by (simp add: str_split_def isspace_def)
  show ?thesis
    by (simp add: snd_get_completions sp set_set_update)
       (simp add: example_completer_def dict_keys_def)
qed


text \<open>
  C4, as the code has it. The last word \<open>/fo\<close> is compared with the command names as
  they are: a registry with the names \<open>/foo\<close> and \<open>/bar\<close> gives exactly \<open>/foo\<close>, replacing
  the three characters typed; one with the names \<open>foo\<close> and \<open>bar\<close> gives nothing; and no
  registry at all gives a completion with the text \<open>foo\<close>.
\<close>

theorem command_completion:
  assumes "FileContentCompleter_init env root rels addable cmds = Inr self"
  shows "(get_commands cmds = [''/foo'', ''/bar'']
            \<longrightarrow> fst (get_completions self ''/fo'') = [Completion ''/foo'' (- 3)])
         \<and> (get_commands cmds = [''foo'', ''bar''] \<longrightarrow> fst (get_completions self ''/fo'') = [])
         \<and> ''foo'' \<notin> completion_text ` set (fst (get_completions self ''/fo''))"
proof -
  let ?d = "build_aliases addable"
  have sp: "str_split ''/fo'' = [''/fo'']"
    by (simp add: str_split_def isspace_def)
  have "pool_mode ''/fo''"
    by (simp add: pool_mode_def sp isspace_def)
  from fst_get_completions_pool [OF this, of self]
  have res: "fst (get_completions self ''/fo'') = yield_matches ?d ''/fo'' (get_commands cmds)"
    by (simp add: sp init_fields(1,2) [OF assms])
  have no_alias: "dict_get ?d ''/foo'' = []"
    by (rule dict_get_slash) simp
  have low: "str_lower ''/fo'' = ''/fo''" "str_lower ''/foo'' = ''/foo''"
    "str_lower ''/bar'' = ''/bar''" "str_lower ''foo'' = ''foo''" "str_lower ''bar'' = ''bar''"
    by (simp_all add: str_lower_def lower_char_def)
  have slash: "fst (get_completions self ''/fo'') = [Completion ''/foo'' (- 3)]"
    if "get_commands cmds = [''/foo'', ''/bar'']"
    by (simp add: res that low str_startswith_def no_alias)
  have bare: "fst (get_completions self ''/fo'') = []"
    if "get_commands cmds = [''foo'', ''bar'']"
    by (simp add: res that low str_startswith_def)
  have never: "''foo'' \<notin> completion_text ` set (fst (get_completions self ''/fo''))"
  proof
    assume "''foo'' \<in> completion_text ` set (fst (get_completions self ''/fo''))"
    then obtain c where c: "c \<in> set (yield_matches ?d ''/fo'' (get_commands cmds))"
      "completion_text c = ''foo''"
      unfolding res by auto
    from c(2) have "Completion ''foo'' (start_position c) = c"
      by (cases c) simp
    with c(1) have "Completion ''foo'' (start_position c)
        \<in> set (yield_matches ?d ''/fo'' (get_commands cmds))"
      by simp
    then show False
    proof (cases rule: yielded_text_cases)
      case (expanded w)
      from included_slash [OF expanded(2)] have "dict_get ?d w = []"
        by (rule dict_get_slash)
      with expanded(3) show False by simp
    next
      case own
      from included_slash [OF own(2)] show False by simp
    qed
  qed
  from slash bare never show ?thesis by blast
qed


theorem command_completion_witness:
  "fst (get_completions example_completer ''/fo'') = [Completion ''/foo'' (- 3)]
   \<and> fst (get_completions (example_completer\<lparr>commands := bare_commands\<rparr>) ''/fo'') = []"
proof -
  have bare: "FileContentCompleter_init example_env ''/repo'' [''main.py'', ''notes''] example_addable
      bare_commands = Inr (example_completer\<lparr>commands := bare_commands\<rparr>)"
    by (rule init_commands [OF example_init])
  show ?thesis
    using command_completion [OF example_init] command_completion [OF bare]
    by (simp add: example_commands_def bare_commands_def)
qed


text \<open>
  C4 as stated fails. With the command names \<open>foo\<close> and \<open>bar\<close> the completions of \<open>/fo\<close>
  are not the set with the one element \<open>foo\<close>: there are none.
\<close>

theorem command_names_counterexample:
  "get_commands (commands (example_completer\<lparr>commands := bare_commands\<rparr>)) = [''foo'', ''bar'']
   \<and> completion_text ` set (fst (get_completions (example_completer\<lparr>commands := bare_commands\<rparr>) ''/fo''))
       \<noteq> {''foo''}"
proof -
  have sp: "str_split ''/fo'' = [''/fo'']"
    by (simp add: str_split_def isspace_def)
  have "fst (get_completions (example_completer\<lparr>commands := bare_commands\<rparr>) ''/fo'') = []"
    by (simp add: get_completions_def sp isspace_def bare_commands_def str_startswith_def
        str_lower_def lower_char_def)
  then show ?thesis by (simp add: bare_commands_def)
qed


section \<open>Multiline input\<close>

text \<open>
  C5. When the files in the chat can be read, the raw lines \<open>{\<close>, \<open>l1\<close>, ..., \<open>ln\<close>, \<open>}\<close>,
  where no \<open>li\<close> trims to \<open>}\<close>, make \<open>get_input\<close> return the lines \<open>l1\<close> to \<open>ln\<close>, each
  followed by a newline, with no line left unread; for the two lines \<open>{\<close> and \<open>}\<close> it
  returns the empty string.
\<close>

theorem multiline_capture:
  assumes "files_readable env root rels"
    and "\<forall>l\<in>set ls. str_strip l \<noteq> ''}''"
  shows "\<exists>self'. get_input self env root rels addable cmds (''{'' # ls @ [''}''])
           = Inr (spec_multiline_body ls, self', [])"
proof -
  obtain c where c: "FileContentCompleter_init env root rels addable cmds = Inr c"
    using init_succeeds [OF assms(1)] .
  have open_brace: "str_strip ''{'' = ''{''"
    by (simp add: str_strip_def str_lstrip_def str_rstrip_def isspace_def)
  let ?show = "(let show0 = str_join '' '' rels;
                    show1 = (if length show0 > 10 then show0 @ [LF] else show0)
                in show1 @ ''> '')"
  obtain shown' where "read_loop env root rels addable cmds ?show True []
        ([] @ [PromptShown ?show]) (ls @ ''}'' # []) = Inr ([] @ spec_multiline_body ls, shown', [])"
    using read_loop_body [OF assms] by blast
  then have "read_loop env root rels addable cmds ?show False [] [] (''{'' # ls @ [''}''])
      = Inr (spec_multiline_body ls, shown', [])"
    by (simp add: c open_brace)
  then show ?thesis
    by (simp add: get_input_def Let_def)
qed


theorem multiline_capture_witness:
  "(\<exists>self'. get_input example_io example_env ''/repo'' [''main.py'', ''notes''] example_addable
       example_commands [''{'', ''line1'', ''line2'', ''}'']
       = Inr (''line1'' @ [LF] @ ''line2'' @ [LF], self', []))
   \<and> (\<exists>self'. get_input example_io example_env ''/repo'' [''main.py'', ''notes''] example_addable
       example_commands [''{'', ''}''] = Inr ('''', self', []))"
proof -
  have r: "files_readable example_env ''/repo'' [''main.py'', ''notes'']"
    by (simp add: files_readable_def example_env_def path_join_def str_startswith_def
        str_endswith_def)
  have s: "\<forall>l\<in>set [''line1'', ''line2'']. str_strip l \<noteq> ''}''"
    by (simp add: str_strip_def str_lstrip_def str_rstrip_def isspace_def)
  show ?thesis
    using multiline_capture [OF r s, of example_io example_addable example_commands]
      multiline_capture [OF r, of "[]" example_io example_addable example_commands]
    by (simp add: spec_multiline_body_def)
qed

end
